theory Spec2Isabelle
  imports
    Main
    "HOL-Library.Char_ord"
    "HOL-Library.List_Lexorder"
    "HOL-Library.Product_Lexorder"
    "HOL-Library.Multiset"
begin

section \<open>The renewable-energy dashboard of \<open>mitigation.py\<close>\<close>

text \<open>
  The module has one public function, \<open>create_renewable_dashboard\<close>, and one callback
  nested in it, \<open>update_graphs\<close>. Both work on a pandas data frame. The data frame is
  modelled as the list of its rows, in row order; a column is the list of one field of
  every row. Every pandas and Python operation the two functions call is given a
  definition of its own below, named after the call, so that each line of the source
  is one application in the model.

  What is outside the model: the Dash application object, the layout widgets other
  than the values the three controls are built from, and the two plotly figures. The
  callback's result is taken to be the two data frames it hands to \<open>px.bar\<close> and
  \<open>px.line\<close>; the colour palette only reaches those two calls and is left out.
\<close>

subsection \<open>Rows and errors\<close>

text \<open>
  A row has the three columns the code reads. A \<open>Source\<close> cell may be missing (NaN
  after \<open>read_csv\<close>): the code itself provides for that with \<open>na=False\<close>. \<open>State\<close> and
  \<open>Fiscal Year\<close> are present in every row. The data frame is as \<open>read_csv\<close> builds it,
  as in the module's main block: a \<open>Source\<close> column with rows but no text in any of
  them is a column of floats, not of text. Text is the list of the bytes of its UTF-8
  encoding, so that comparing two texts byte by byte compares them by code point, as
  Python does.
\<close>

record row =
  Source :: "string option"
  State :: string
  Fiscal_Year :: int

datatype error = TypeError | ValueError | IndexError | AttributeError

subsection \<open>\<open>Series.str.contains(pat, case=False, na=False)\<close>\<close>

definition lower_char :: "char \<Rightarrow> char" where
  "lower_char c =
     (if CHR ''A'' \<le> c \<and> c \<le> CHR ''Z'' then char_of (of_char c + (32::nat)) else c)"

text \<open>The alternatives of a pattern made of literals and \<open>|\<close> only.\<close>

fun alternatives :: "string \<Rightarrow> string list" where
  "alternatives [] = [[]]"
| "alternatives (c # cs) =
     (if c = CHR ''|'' then [] # alternatives cs
      else (case alternatives cs of
              [] \<Rightarrow> [[c]]
            | w # ws \<Rightarrow> (c # w) # ws))"

text \<open>
  With \<open>case=False\<close> the pattern is compiled with \<open>re.IGNORECASE\<close>. A letter of the
  pattern then matches itself in both cases and, as Python's \<open>re\<close> documents, four
  characters outside ASCII: U+0130 and U+0131 match \<open>i\<close>, U+017F matches \<open>s\<close> and U+212A
  matches \<open>k\<close>. \<open>other_forms\<close> lists their encodings for a lower-case letter.
\<close>

definition other_forms :: "char \<Rightarrow> string list" where
  "other_forms l =
     (if l = CHR ''i'' then [[CHR 0xC4, CHR 0xB0], [CHR 0xC4, CHR 0xB1]]
      else if l = CHR ''s'' then [[CHR 0xC5, CHR 0xBF]]
      else if l = CHR ''k'' then [[CHR 0xE2, CHR 0x84, CHR 0xAA]]
      else [])"

text \<open>One literal alternative tried at the start of the text, ignoring case.\<close>

fun match_at :: "string \<Rightarrow> string \<Rightarrow> bool" where
  "match_at [] s = True"
| "match_at (p # ps) s =
     ((case s of
         [] \<Rightarrow> False
       | c # cs \<Rightarrow> lower_char c = lower_char p \<and> match_at ps cs) \<or>
      list_ex (\<lambda>v. take (length v) s = v \<and> match_at ps (drop (length v) s))
        (other_forms (lower_char p)))"

text \<open>\<open>re.search\<close>: the alternatives are tried at every position, left to right.\<close>

fun re_search :: "string list \<Rightarrow> string \<Rightarrow> bool" where
  "re_search alts [] = list_ex (\<lambda>a. match_at a []) alts"
| "re_search alts (c # cs) =
     (list_ex (\<lambda>a. match_at a (c # cs)) alts \<or> re_search alts cs)"

text \<open>
  The \<open>.str\<close> accessor is for a column of text. On a column of floats, which is what a
  column with rows and no text in them is, it raises \<open>AttributeError\<close>; a column
  without rows is accepted.
\<close>

definition str_accessor :: "string option list \<Rightarrow> error + string option list" where
  "str_accessor col =
     (if col \<noteq> [] \<and> list_all (\<lambda>cell. cell = None) col then Inl AttributeError else Inr col)"

definition str_contains :: "string \<Rightarrow> bool \<Rightarrow> string option list \<Rightarrow> error + bool list" where
  "str_contains pat na col =
     (case str_accessor col of
        Inl e \<Rightarrow> Inl e
      | Inr cells \<Rightarrow>
          Inr (map (\<lambda>cell. case cell of
                           None \<Rightarrow> na
                         | Some s \<Rightarrow> re_search (alternatives pat) s) cells))"

subsection \<open>Boolean masks and row selection\<close>

definition invert :: "bool list \<Rightarrow> bool list" where
  "invert m = map Not m"

definition mask_and :: "bool list \<Rightarrow> bool list \<Rightarrow> bool list" where
  "mask_and m1 m2 = map (\<lambda>(a, b). a \<and> b) (zip m1 m2)"

definition col_ge :: "int list \<Rightarrow> int \<Rightarrow> bool list" where
  "col_ge col v = map (\<lambda>x. v \<le> x) col"

definition col_le :: "int list \<Rightarrow> int \<Rightarrow> bool list" where
  "col_le col v = map (\<lambda>x. x \<le> v) col"

definition isin :: "'a list \<Rightarrow> 'a list \<Rightarrow> bool list" where
  "isin col vals = map (\<lambda>x. x \<in> set vals) col"

text \<open>\<open>df[mask]\<close>: the rows whose mask entry is true, in row order.\<close>

definition select_rows :: "'a list \<Rightarrow> bool list \<Rightarrow> 'a list" where
  "select_rows rows m = map fst (filter snd (zip rows m))"

subsection \<open>\<open>unique\<close>, \<open>sorted\<close>, \<open>min\<close>, \<open>max\<close>\<close>

text \<open>\<open>Series.unique()\<close>: the distinct values in order of first appearance.\<close>

fun unique :: "'a list \<Rightarrow> 'a list" where
  "unique [] = []"
| "unique (x # xs) = x # unique (filter (\<lambda>y. y \<noteq> x) xs)"

text \<open>
  \<open>sorted\<close> on a list of distinct \<open>Source\<close> values. Python compares the entries with
  \<open><\<close>; a missing value is the float NaN, and comparing it with a string raises
  \<open>TypeError\<close>. A list of at most one entry is returned without any comparison.
\<close>

definition sorted_sources :: "string option list \<Rightarrow> error + string option list" where
  "sorted_sources xs =
     (if length xs \<le> 1 then Inr xs
      else if None \<in> set xs then Inl TypeError
      else Inr (map Some (sort (concat (map (\<lambda>x. case x of None \<Rightarrow> [] | Some s \<Rightarrow> [s]) xs)))))"

definition py_min :: "int list \<Rightarrow> error + int" where
  "py_min xs = (case xs of [] \<Rightarrow> Inl ValueError | y # ys \<Rightarrow> Inr (fold min ys y))"

definition py_max :: "int list \<Rightarrow> error + int" where
  "py_max xs = (case xs of [] \<Rightarrow> Inl ValueError | y # ys \<Rightarrow> Inr (fold max ys y))"

subsection \<open>\<open>groupby(keys).size().reset_index(name=...)\<close>\<close>

text \<open>
  The argument is the key of every row, \<open>None\<close> for a row with a missing key cell.
  pandas drops those rows (\<open>dropna=True\<close>), lists the remaining distinct keys in
  ascending order (\<open>sort=True\<close>) and counts the rows of each.
\<close>

definition groupby_size :: "('k::linorder) option list \<Rightarrow> ('k \<times> nat) list" where
  "groupby_size keys =
     (let present = concat (map (\<lambda>k. case k of None \<Rightarrow> [] | Some v \<Rightarrow> [v]) keys)
      in map (\<lambda>k. (k, count_list present k)) (sort (unique present)))"

definition state_key :: "row \<Rightarrow> string option" where
  "state_key r = Some (State r)"

definition state_source_key :: "row \<Rightarrow> (string \<times> string) option" where
  "state_source_key r = (case Source r of None \<Rightarrow> None | Some s \<Rightarrow> Some (State r, s))"

definition year_source_key :: "row \<Rightarrow> (int \<times> string) option" where
  "year_source_key r = (case Source r of None \<Rightarrow> None | Some s \<Rightarrow> Some (Fiscal_Year r, s))"

definition flatten :: "(('a \<times> 'b) \<times> nat) list \<Rightarrow> ('a \<times> 'b \<times> nat) list" where
  "flatten t = map (\<lambda>((a, b), n). (a, b, n)) t"

subsection \<open>\<open>create_renewable_dashboard\<close>, lines 8 to 20\<close>

definition renewable :: "row list \<Rightarrow> error + row list" where
  "renewable dataset =
     (case str_contains ''Consumption|Verification|Sold'' False (map Source dataset) of
        Inl e \<Rightarrow> Inl e
      | Inr m \<Rightarrow> Inr (select_rows dataset (invert m)))"

definition years :: "row list \<Rightarrow> int list" where
  "years rn = sort (unique (map Fiscal_Year rn))"

definition sources :: "row list \<Rightarrow> error + string option list" where
  "sources rn = sorted_sources (unique (map Source rn))"

definition all_states :: "row list \<Rightarrow> string list" where
  "all_states rn = sort (unique (map State rn))"

definition state_counts :: "row list \<Rightarrow> (string \<times> nat) list" where
  "state_counts rn = groupby_size (map state_key rn)"

text \<open>
  \<open>sort_values('count', ascending=False)\<close> is called with pandas's default sort kind,
  \<open>quicksort\<close>, which the library documents as not stable: the order it leaves between
  rows of equal count is not fixed by the code. The sort is therefore a parameter of
  the model; \<open>sort_values_desc\<close> says what every sort kind guarantees, the same rows in
  descending order of count.
\<close>

type_synonym sort_values = "(string \<times> nat) list \<Rightarrow> (string \<times> nat) list"

definition sort_values_desc :: "sort_values \<Rightarrow> bool" where
  "sort_values_desc srt =
     (\<forall>df. mset (srt df) = mset df \<and> sorted_wrt (\<lambda>a b. snd b \<le> snd a) (srt df))"

definition top_10_states :: "sort_values \<Rightarrow> row list \<Rightarrow> string list" where
  "top_10_states srt rn = map fst (take 10 (srt (state_counts rn)))"

text \<open>
  Two sorts that meet \<open>sort_values_desc\<close>. The first is what pandas does around a sort
  that keeps equal keys in place: reverse the frame, sort it ascending, reverse the
  result. The second sorts ascending and reverses, which turns every run of equal
  counts around.
\<close>

definition stable_descending :: sort_values where
  "stable_descending df = rev (sort_key snd (rev df))"

definition reversed_ascending :: sort_values where
  "reversed_ascending df = rev (sort_key snd df)"

subsection \<open>\<open>create_renewable_dashboard\<close>, the layout and the returned application\<close>

text \<open>
  Of the layout the model keeps what is computed from the data: the range slider's
  \<open>min\<close>, \<open>max\<close>, \<open>value\<close> and the years it marks, and the options and initial value of
  the two dropdowns. The application is the layout together with the working dataset
  that the callback closes over.
\<close>

record controls =
  slider_min :: int
  slider_max :: int
  slider_value :: "int list"
  slider_marks :: "int list"
  state_options :: "string list"
  state_value :: "string list"
  source_options :: "string option list"
  source_value :: "string option list"

record app =
  layout :: controls
  working :: "row list"

definition create_renewable_dashboard :: "sort_values \<Rightarrow> row list \<Rightarrow> error + app" where
  "create_renewable_dashboard srt dataset =
     (case renewable dataset of
        Inl e \<Rightarrow> Inl e
      | Inr rn \<Rightarrow>
          (let ys = years rn
           in case sources rn of
                Inl e \<Rightarrow> Inl e
              | Inr srcs \<Rightarrow>
                  (let sts = all_states rn;
                       top = top_10_states srt rn
                   in case py_min ys of
                        Inl e \<Rightarrow> Inl e
                      | Inr lo \<Rightarrow>
                          (case py_max ys of
                             Inl e \<Rightarrow> Inl e
                           | Inr hi \<Rightarrow>
                               Inr \<lparr>layout =
                                      \<lparr>slider_min = lo, slider_max = hi,
                                       slider_value = [lo, hi], slider_marks = ys,
                                       state_options = sts, state_value = top,
                                       source_options = srcs, source_value = srcs\<rparr>,
                                    working = rn\<rparr>))))"

subsection \<open>\<open>update_graphs\<close>\<close>

text \<open>
  The callback receives the slider's value as a list and reads its entries 0 and 1,
  and the two dropdown values as lists. The selected sources are values of the
  \<open>Source\<close> column: the dropdown is built from \<open>sources\<close>, which holds the missing
  value when the working dataset does, and \<open>isin\<close> finds the missing value in a list
  that holds it. The four masks are combined with \<open>&\<close> from left to right.
\<close>

definition filtered_data ::
  "row list \<Rightarrow> int \<Rightarrow> int \<Rightarrow> string list \<Rightarrow> string option list \<Rightarrow> row list" where
  "filtered_data rn lo hi selected_states selected_sources =
     select_rows rn
       (mask_and
          (mask_and
             (mask_and (col_ge (map Fiscal_Year rn) lo) (col_le (map Fiscal_Year rn) hi))
             (isin (map State rn) selected_states))
          (isin (map Source rn) selected_sources))"

type_synonym table_a = "(string \<times> string \<times> nat) list"
type_synonym table_b = "(int \<times> string \<times> nat) list"

definition update_graphs ::
  "row list \<Rightarrow> int list \<Rightarrow> string list \<Rightarrow> string option list \<Rightarrow>
     error + (table_a \<times> table_b)" where
  "update_graphs rn years_range selected_states selected_sources =
     (case years_range of
        lo # hi # rest \<Rightarrow>
          (let fd = filtered_data rn lo hi selected_states selected_sources
           in Inr (flatten (groupby_size (map state_source_key fd)),
                   flatten (groupby_size (map year_source_key fd))))
      | _ \<Rightarrow> Inl IndexError)"

text \<open>
  One firing of the callback on the running application: the result for the browser
  and the application afterwards. The callback assigns to nothing outside its body.
\<close>

definition fire_callback ::
  "app \<Rightarrow> int list \<Rightarrow> string list \<Rightarrow> string option list \<Rightarrow>
     (error + (table_a \<times> table_b)) \<times> app" where
  "fire_callback a years_range selected_states selected_sources =
     (update_graphs (working a) years_range selected_states selected_sources, a)"

subsection \<open>The specification's notions\<close>

text \<open>
  The specification speaks of a text that case-insensitively contains a keyword, of
  the row inclusion predicate of a selection, and of the sum of the counts of a
  table. They are defined here in its words, apart from the code. A text contains a
  keyword case-insensitively when a stretch of it is the keyword up to the case of
  the letters A to Z. In the predicate, the source of a row is in the selected
  sources when its \<open>Source\<close> cell is one of the selected values.
\<close>

definition ci_contains :: "string \<Rightarrow> string \<Rightarrow> bool" where
  "ci_contains kw s =
     (\<exists>before found after. s = before @ found @ after \<and> map lower_char found = map lower_char kw)"

definition row_included ::
  "int \<Rightarrow> int \<Rightarrow> string set \<Rightarrow> string option set \<Rightarrow> row \<Rightarrow> bool" where
  "row_included yearMin yearMax states srcs r =
     (yearMin \<le> Fiscal_Year r \<and> Fiscal_Year r \<le> yearMax \<and> State r \<in> states \<and>
      Source r \<in> srcs)"

text \<open>
  Ties broken by an order of first encounter: wherever two entries of the list have
  equal counts, the one that comes first in the reference order comes first.
\<close>

definition position :: "'a list \<Rightarrow> 'a \<Rightarrow> nat" where
  "position ref x = length (takeWhile (\<lambda>y. y \<noteq> x) ref)"

definition ties_in_order_of :: "'a list \<Rightarrow> ('a \<Rightarrow> nat) \<Rightarrow> 'a list \<Rightarrow> bool" where
  "ties_in_order_of ref cnt xs =
     sorted_wrt (\<lambda>a b. cnt a = cnt b \<longrightarrow> position ref a < position ref b) xs"

definition sum_of_counts :: "('a \<times> 'b \<times> nat) list \<Rightarrow> nat" where
  "sum_of_counts t = sum_list (map (\<lambda>(a, b, n). n) t)"

subsection \<open>Example data\<close>

definition solar_ca_2020 :: row where
  "solar_ca_2020 = \<lparr>Source = Some ''Solar Grant'', State = ''CA'', Fiscal_Year = 2020\<rparr>"

definition wind_report_ca_2020 :: row where
  "wind_report_ca_2020 =
     \<lparr>Source = Some ''Wind Consumption Report'', State = ''CA'', Fiscal_Year = 2020\<rparr>"

definition unlabelled_tx_2021 :: row where
  "unlabelled_tx_2021 = \<lparr>Source = None, State = ''TX'', Fiscal_Year = 2021\<rparr>"

definition wind_tx_2021 :: row where
  "wind_tx_2021 = \<lparr>Source = Some ''Wind Farm'', State = ''TX'', Fiscal_Year = 2021\<rparr>"

definition solar_az_2019 :: row where
  "solar_az_2019 = \<lparr>Source = Some ''Solar Grant'', State = ''AZ'', Fiscal_Year = 2019\<rparr>"

definition scenario :: "row list" where
  "scenario = [solar_ca_2020, wind_report_ca_2020]"

text \<open>The application that the constructor returns for the scenario.\<close>

definition scenario_app :: app where
  "scenario_app =
     \<lparr>layout =
        \<lparr>slider_min = 2020, slider_max = 2020, slider_value = [2020, 2020],
         slider_marks = [2020], state_options = [''CA''], state_value = [''CA''],
         source_options = [Some ''Solar Grant''], source_value = [Some ''Solar Grant'']\<rparr>,
      working = [solar_ca_2020]\<rparr>"

text \<open>
  A dataset whose only retained row has no \<open>Source\<close>, and a dataset in which no row has
  one.
\<close>

definition unlabelled_kept :: "row list" where
  "unlabelled_kept = [unlabelled_tx_2021, wind_report_ca_2020]"


definition three_states :: "row list" where
  "three_states = [solar_ca_2020, solar_az_2019, wind_tx_2021]"

text \<open>Twelve states; Texas has two rows, every other state one.\<close>

definition twelve_states :: "row list" where
  "twelve_states =
     map (\<lambda>st. \<lparr>Source = Some ''Solar Grant'', State = st, Fiscal_Year = 2020\<rparr>)
       [''WA'', ''OR'', ''CA'', ''NV'', ''AZ'', ''UT'', ''ID'', ''MT'', ''WY'', ''CO'', ''NM'',
        ''TX''] @ [wind_tx_2021]"

section \<open>Properties of the operations\<close>

subsection \<open>Row selection, \<open>unique\<close> and counting\<close>

lemma select_rows_map: "select_rows xs (map f xs) = filter f xs"
  by (induction xs) (auto simp: select_rows_def)

lemma mask_and_map: "mask_and (map f xs) (map g xs) = map (\<lambda>x. f x \<and> g x) xs"
  by (induction xs) (auto simp: mask_and_def)

lemma filter_none: "(\<And>x. x \<in> set xs \<Longrightarrow> \<not> P x) \<Longrightarrow> filter P xs = []"
  by (induction xs) auto


lemma count_list_map_filter: "count_list (map f xs) k = length (filter (\<lambda>x. f x = k) xs)"
  by (induction xs) auto

lemma set_unique: "set (unique xs) = set xs"
  by (induction xs rule: unique.induct) auto

lemma distinct_unique: "distinct (unique xs)"
  by (induction xs rule: unique.induct) (auto simp: set_unique)

subsection \<open>The search finds every case-insensitive occurrence\<close>

lemma match_at_prefix:
  "map lower_char found = map lower_char kw \<Longrightarrow> match_at kw (found @ after)"
proof (induction kw arbitrary: found)
  case Nil
  then show ?case by simp
next
  case (Cons p ps)
  then obtain f fs where f: "found = f # fs" by (cases found) auto
  with Cons.prems have "lower_char f = lower_char p" "map lower_char fs = map lower_char ps"
    by auto
  with Cons.IH [of fs] f show ?case by simp
qed

lemma match_at_search: "kw \<in> set alts \<Longrightarrow> match_at kw s \<Longrightarrow> re_search alts s"
  by (cases s) (auto simp: list_ex_iff)

lemma re_search_Cons: "re_search alts s \<Longrightarrow> re_search alts (c # s)"
  by simp

lemma re_search_contains:
  assumes "kw \<in> set alts" and "ci_contains kw s"
  shows "re_search alts s"
proof -
  from assms(2) obtain before found after where
    s: "s = before @ found @ after" and m: "map lower_char found = map lower_char kw"
    by (auto simp: ci_contains_def)
  have "re_search alts (found @ after)"
    using assms(1) m by (intro match_at_search [of kw]) (auto intro: match_at_prefix)
  then have "re_search alts (before @ found @ after)"
    by (induction before) (auto intro: re_search_Cons)
  with s show ?thesis by simp
qed

text \<open>
  Line 8 fails on a dataset with rows none of which has a \<open>Source\<close>, and otherwise
  keeps the rows without a \<open>Source\<close> and the rows in which the search finds nothing.
\<close>

lemma str_accessor_fails:
  "str_accessor (map Source dataset) =
     (if dataset \<noteq> [] \<and> (\<forall>r\<in>set dataset. Source r = None) then Inl AttributeError
      else Inr (map Source dataset))"
  by (auto simp: str_accessor_def list_all_iff)

lemma renewable_filter:
  "renewable dataset =
     (if dataset \<noteq> [] \<and> (\<forall>r\<in>set dataset. Source r = None) then Inl AttributeError
      else Inr (filter (\<lambda>r. case Source r of
                              None \<Rightarrow> True
                            | Some s \<Rightarrow>
                                \<not> re_search [''Consumption'', ''Verification'', ''Sold''] s)
                  dataset))"
proof -
  have "invert (map (\<lambda>cell. case cell of
                        None \<Rightarrow> False
                      | Some s \<Rightarrow> re_search (alternatives ''Consumption|Verification|Sold'') s)
                  (map Source dataset)) =
        map (\<lambda>r. case Source r of
                   None \<Rightarrow> True
                 | Some s \<Rightarrow> \<not> re_search [''Consumption'', ''Verification'', ''Sold''] s)
          dataset"
    by (simp add: invert_def split: option.split)
  then have "select_rows dataset
          (invert (map (\<lambda>cell. case cell of
                        None \<Rightarrow> False
                      | Some s \<Rightarrow> re_search (alternatives ''Consumption|Verification|Sold'') s)
                  (map Source dataset))) =
        filter (\<lambda>r. case Source r of
                   None \<Rightarrow> True
                 | Some s \<Rightarrow> \<not> re_search [''Consumption'', ''Verification'', ''Sold''] s)
          dataset"
    by (simp only: select_rows_map)
  then show ?thesis
    unfolding renewable_def str_contains_def str_accessor_fails
    by (simp only: sum.case if_distrib [of "case_sum Inl _"] split: if_splits)
qed

lemma renewable_returns:
  "Some s \<in> Source ` set dataset \<Longrightarrow> \<exists>rn. renewable dataset = Inr rn"
  by (auto simp: renewable_filter)

lemma renewable_subset: "renewable dataset = Inr rn \<Longrightarrow> set rn \<subseteq> set dataset"
  by (auto simp: renewable_filter split: if_splits)

subsection \<open>The facet lists\<close>

lemma years_sorted_distinct:
  "sorted (years rn) \<and> distinct (years rn) \<and> set (years rn) = Fiscal_Year ` set rn"
  by (simp add: years_def distinct_unique set_unique)

lemma all_states_sorted_distinct:
  "sorted (all_states rn) \<and> distinct (all_states rn) \<and> set (all_states rn) = State ` set rn"
  by (simp add: all_states_def distinct_unique set_unique)

lemma years_Nil_iff: "years rn = [] \<longleftrightarrow> rn = []"
proof -
  have "years rn = [] \<longleftrightarrow> set (years rn) = {}" by simp
  also have "\<dots> \<longleftrightarrow> rn = []" by (simp add: years_def set_unique)
  finally show ?thesis .
qed

lemma sources_error: "sources rn = Inl e \<Longrightarrow> e = TypeError"
  by (auto simp: sources_def sorted_sources_def split: if_splits)

lemma sources_empty: "sources [] = Inr []"
  by (simp add: sources_def sorted_sources_def)

lemma py_min_error: "py_min xs = Inl e \<longleftrightarrow> xs = [] \<and> e = ValueError"
  by (auto simp: py_min_def split: list.splits)

lemma py_max_error: "py_max xs = Inl e \<longleftrightarrow> xs = [] \<and> e = ValueError"
  by (auto simp: py_max_def split: list.splits)

lemma labels_of_present:
  "None \<notin> set xs \<Longrightarrow>
     map Some (concat (map (\<lambda>x. case x of None \<Rightarrow> [] | Some s \<Rightarrow> [s]) xs)) = xs"
proof (induction xs)
  case Nil
  then show ?case by simp
next
  case (Cons a xs)
  then show ?case by (cases a) auto
qed

lemma sorted_short: "length (xs :: string list) \<le> 1 \<Longrightarrow> sort xs = xs"
  by (cases xs) auto

text \<open>
  With a \<open>Source\<close> in every row the third list is there as well, ascending and
  without duplicates.
\<close>

lemma sources_sorted_distinct:
  assumes "None \<notin> Source ` set rn"
  shows "\<exists>xs. sources rn = Inr (map Some xs) \<and> sorted xs \<and> distinct xs \<and>
               Some ` set xs = Source ` set rn"
proof -
  let ?u = "unique (map Source rn)"
  let ?l = "concat (map (\<lambda>x. case x of None \<Rightarrow> [] | Some s \<Rightarrow> [s]) ?u)"
  from assms have n: "None \<notin> set ?u" by (simp add: set_unique)
  then have u: "map Some ?l = ?u" by (rule labels_of_present)
  have "distinct (map Some ?l)" unfolding u by (rule distinct_unique)
  then have d: "distinct ?l" by (simp add: distinct_map)
  have s: "Some ` set ?l = Source ` set rn"
  proof -
    have "Some ` set ?l = set (map Some ?l)" by simp
    also have "\<dots> = Source ` set rn" unfolding u by (simp add: set_unique)
    finally show ?thesis .
  qed
  have len: "length ?l = length ?u"
  proof -
    have "length (map Some ?l) = length ?u" unfolding u ..
    then show ?thesis by simp
  qed
  have "sources rn = Inr (map Some (sort ?l))"
  proof (cases "length ?u \<le> 1")
    case True
    then have "sort ?l = ?l" using len by (intro sorted_short) simp
    with True u show ?thesis by (simp add: sources_def sorted_sources_def)
  next
    case False
    with n show ?thesis by (simp add: sources_def sorted_sources_def)
  qed
  moreover have "sorted (sort ?l)" "distinct (sort ?l)" "Some ` set (sort ?l) = Source ` set rn"
    using d s by simp_all
  ultimately show ?thesis by blast
qed

text \<open>
  The third list fails exactly when the working dataset has a row without a \<open>Source\<close>
  and a row with one.
\<close>

lemma sources_fails_iff:
  "sources rn = Inl TypeError \<longleftrightarrow>
     None \<in> Source ` set rn \<and> (\<exists>s. Some s \<in> Source ` set rn)"
proof -
  let ?u = "unique (map Source rn)"
  have su: "set ?u = Source ` set rn" by (simp add: set_unique)
  have du: "distinct ?u" by (rule distinct_unique)
  have "1 < length ?u \<and> None \<in> set ?u \<longleftrightarrow> None \<in> set ?u \<and> (\<exists>s. Some s \<in> set ?u)"
  proof
    assume a: "1 < length ?u \<and> None \<in> set ?u"
    have "\<exists>s. Some s \<in> set ?u"
    proof (rule ccontr)
      assume no: "\<not> (\<exists>s. Some s \<in> set ?u)"
      have "x = None" if "x \<in> set ?u" for x
        using that no by (metis not_Some_eq)
      then have "set ?u \<subseteq> {None}" by blast
      then have "card (set ?u) \<le> card {None :: string option}"
        by (intro card_mono) auto
      then have "length ?u \<le> 1" using du by (simp add: distinct_card)
      with a show False by simp
    qed
    with a show "None \<in> set ?u \<and> (\<exists>s. Some s \<in> set ?u)" by simp
  next
    assume a: "None \<in> set ?u \<and> (\<exists>s. Some s \<in> set ?u)"
    then obtain s where "Some s \<in> set ?u" by blast
    with a have "{None, Some s} \<subseteq> set ?u" by simp
    then have "card {None, Some s} \<le> card (set ?u)" by (intro card_mono) auto
    then have "2 \<le> length ?u" using du by (simp add: distinct_card)
    with a show "1 < length ?u \<and> None \<in> set ?u" by simp
  qed
  then show ?thesis
    unfolding su [symmetric] by (auto simp: sources_def sorted_sources_def)
qed

subsection \<open>Grouping\<close>

lemma present_Some: "concat (map (\<lambda>k. case k of None \<Rightarrow> [] | Some v \<Rightarrow> [v]) (map Some xs)) = xs"
  by (induction xs) auto

lemma present_count:
  "count_list (concat (map (\<lambda>k. case k of None \<Rightarrow> [] | Some v \<Rightarrow> [v]) keys)) k =
     count_list keys (Some k)"
proof (induction keys)
  case Nil
  then show ?case by simp
next
  case (Cons a keys)
  then show ?case by (cases a) auto
qed

lemma present_length:
  "length (concat (map (\<lambda>k. case k of None \<Rightarrow> [] | Some v \<Rightarrow> [v]) (map key rs))) =
     length (filter (\<lambda>r. key r \<noteq> None) rs)"
  by (induction rs) (auto split: option.splits)

lemma groupby_size_Nil: "groupby_size [] = []"
  by (simp add: groupby_size_def)

lemma groupby_size_total:
  "sum_list (map snd (groupby_size keys)) =
     length (concat (map (\<lambda>k. case k of None \<Rightarrow> [] | Some v \<Rightarrow> [v]) keys))"
proof -
  define present where
    "present = concat (map (\<lambda>k. case k of None \<Rightarrow> [] | Some v \<Rightarrow> [v]) keys)"
  have "sum_list (map snd (groupby_size keys)) =
        sum_list (map (count_list present) (sort (unique present)))"
    by (simp add: groupby_size_def present_def Let_def comp_def)
  also have "\<dots> = sum (count_list present) (set (sort (unique present)))"
    by (rule sum_list_distinct_conv_sum_set) (simp add: distinct_unique)
  also have "\<dots> = length present"
    by (simp add: set_unique sum_count_set)
  finally show ?thesis by (simp add: present_def)
qed

text \<open>A group is listed when it has a row, with the number of its rows.\<close>

lemma groupby_size_member:
  "(k, n) \<in> set (groupby_size keys) \<longleftrightarrow> 0 < n \<and> n = count_list keys (Some k)"
proof -
  define present where
    "present = concat (map (\<lambda>k. case k of None \<Rightarrow> [] | Some v \<Rightarrow> [v]) keys)"
  have c: "count_list present k = count_list keys (Some k)"
    unfolding present_def by (rule present_count)
  have "(k, n) \<in> set (groupby_size keys) \<longleftrightarrow> k \<in> set present \<and> n = count_list present k"
    by (auto simp: groupby_size_def present_def [symmetric] Let_def set_unique)
  also have "\<dots> \<longleftrightarrow> 0 < n \<and> n = count_list present k"
    using count_list_0_iff [of present k] by auto
  finally show ?thesis by (simp add: c)
qed

lemma flatten_member: "(a, b, n) \<in> set (flatten t) \<longleftrightarrow> ((a, b), n) \<in> set t"
  by (force simp: flatten_def)

lemma sum_of_counts_flatten: "sum_of_counts (flatten t) = sum_list (map snd t)"
  by (induction t) (auto simp: sum_of_counts_def flatten_def)

lemma table_total:
  "sum_of_counts (flatten (groupby_size (map state_source_key rs))) =
     length (filter (\<lambda>r. Source r \<noteq> None) rs)"
  "sum_of_counts (flatten (groupby_size (map year_source_key rs))) =
     length (filter (\<lambda>r. Source r \<noteq> None) rs)"
proof -
  have a: "state_source_key r \<noteq> None \<longleftrightarrow> Source r \<noteq> None" for r
    by (auto simp: state_source_key_def split: option.splits)
  have b: "year_source_key r \<noteq> None \<longleftrightarrow> Source r \<noteq> None" for r
    by (auto simp: year_source_key_def split: option.splits)
  show "sum_of_counts (flatten (groupby_size (map state_source_key rs))) =
     length (filter (\<lambda>r. Source r \<noteq> None) rs)"
    unfolding sum_of_counts_flatten groupby_size_total present_length a ..
  show "sum_of_counts (flatten (groupby_size (map year_source_key rs))) =
     length (filter (\<lambda>r. Source r \<noteq> None) rs)"
    unfolding sum_of_counts_flatten groupby_size_total present_length b ..
qed

lemma state_source_key_eq:
  "state_source_key r = Some (st, s) \<longleftrightarrow> State r = st \<and> Source r = Some s"
  by (auto simp: state_source_key_def split: option.splits)

lemma year_source_key_eq:
  "year_source_key r = Some (y, s) \<longleftrightarrow> Fiscal_Year r = y \<and> Source r = Some s"
  by (auto simp: year_source_key_def split: option.splits)

subsection \<open>The callback's row filter\<close>

lemma filtered_data_filter:
  "filtered_data rn lo hi sts srcs = filter (row_included lo hi (set sts) (set srcs)) rn"
proof -
  have y1: "col_ge (map Fiscal_Year rn) lo = map (\<lambda>r. lo \<le> Fiscal_Year r) rn"
    by (simp add: col_ge_def)
  have y2: "col_le (map Fiscal_Year rn) hi = map (\<lambda>r. Fiscal_Year r \<le> hi) rn"
    by (simp add: col_le_def)
  have s1: "isin (map State rn) sts = map (\<lambda>r. State r \<in> set sts) rn"
    by (simp add: isin_def)
  have s2: "isin (map Source rn) srcs = map (\<lambda>r. Source r \<in> set srcs) rn"
    by (simp add: isin_def)
  show ?thesis
    unfolding filtered_data_def y1 y2 s1 s2 mask_and_map select_rows_map row_included_def
    by (rule filter_cong) auto
qed

lemma update_graphs_pair:
  "update_graphs rn [lo, hi] sts srcs =
     Inr (flatten (groupby_size (map state_source_key
            (filter (row_included lo hi (set sts) (set srcs)) rn))),
          flatten (groupby_size (map year_source_key
            (filter (row_included lo hi (set sts) (set srcs)) rn))))"
  by (simp add: update_graphs_def filtered_data_filter Let_def)

lemma update_graphs_nothing_included:
  assumes "\<And>r. r \<in> set rn \<Longrightarrow> \<not> row_included lo hi (set sts) (set srcs) r"
  shows "update_graphs rn [lo, hi] sts srcs = Inr ([], [])"
proof -
  from assms have "filter (row_included lo hi (set sts) (set srcs)) rn = []"
    by (rule filter_none)
  then show ?thesis by (simp add: update_graphs_pair groupby_size_Nil flatten_def)
qed

text \<open>
  The counts of either table add up to the number of included rows that have a
  \<open>Source\<close>: the grouping leaves out an included row without one. When the missing
  value is not selected, or no row is without a \<open>Source\<close>, that is every included row.
\<close>

lemma table_sums:
  "\<exists>ta tb. update_graphs rn [lo, hi] sts srcs = Inr (ta, tb) \<and>
     sum_of_counts ta = sum_of_counts tb \<and>
     sum_of_counts tb =
       length (filter (\<lambda>r. Source r \<noteq> None)
                 (filter (row_included lo hi (set sts) (set srcs)) rn))"
  by (simp add: update_graphs_pair table_total)

lemma table_sums_all_included:
  assumes "None \<notin> set srcs \<or> None \<notin> Source ` set rn"
  shows "\<exists>ta tb. update_graphs rn [lo, hi] sts srcs = Inr (ta, tb) \<and>
     sum_of_counts ta = sum_of_counts tb \<and>
     sum_of_counts tb = length (filter (row_included lo hi (set sts) (set srcs)) rn)"
proof -
  have "filter (\<lambda>r. Source r \<noteq> None) (filter (row_included lo hi (set sts) (set srcs)) rn) =
        filter (row_included lo hi (set sts) (set srcs)) rn"
  proof (rule filter_True, rule ballI)
    fix r
    assume "r \<in> set (filter (row_included lo hi (set sts) (set srcs)) rn)"
    then have "r \<in> set rn" "Source r \<in> set srcs"
      by (auto simp: row_included_def)
    with assms show "Source r \<noteq> None" by (metis image_eqI)
  qed
  with table_sums [of rn lo hi sts srcs] show ?thesis by simp
qed

text \<open>
  Either table lists a group when an included row belongs to it, with the number of
  those rows; a row without a \<open>Source\<close> belongs to no group.
\<close>

lemma table_groups:
  "\<exists>ta tb. update_graphs rn [lo, hi] sts srcs = Inr (ta, tb) \<and>
     (\<forall>st s n. (st, s, n) \<in> set ta \<longleftrightarrow>
        0 < n \<and>
        n = length (filter (\<lambda>r. State r = st \<and> Source r = Some s)
              (filter (row_included lo hi (set sts) (set srcs)) rn))) \<and>
     (\<forall>y s n. (y, s, n) \<in> set tb \<longleftrightarrow>
        0 < n \<and>
        n = length (filter (\<lambda>r. Fiscal_Year r = y \<and> Source r = Some s)
              (filter (row_included lo hi (set sts) (set srcs)) rn)))"
proof -
  let ?inc = "filter (row_included lo hi (set sts) (set srcs)) rn"
  have a: "(st, s, n) \<in> set (flatten (groupby_size (map state_source_key ?inc))) \<longleftrightarrow>
      0 < n \<and> n = length (filter (\<lambda>r. State r = st \<and> Source r = Some s) ?inc)" for st s n
    unfolding flatten_member groupby_size_member count_list_map_filter state_source_key_eq ..
  have b: "(y, s, n) \<in> set (flatten (groupby_size (map year_source_key ?inc))) \<longleftrightarrow>
      0 < n \<and> n = length (filter (\<lambda>r. Fiscal_Year r = y \<and> Source r = Some s) ?inc)" for y s n
    unfolding flatten_member groupby_size_member count_list_map_filter year_source_key_eq ..
  from a b show ?thesis unfolding update_graphs_pair by blast
qed

subsection \<open>The state counts and their sort\<close>

lemma state_counts_rows:
  "state_counts rn =
     map (\<lambda>k. (k, count_list (map State rn) k)) (sort (unique (map State rn)))"
proof -
  have "map state_key rn = map Some (map State rn)"
    by (simp add: state_key_def)
  then show ?thesis
    unfolding state_counts_def groupby_size_def Let_def by (simp only: present_Some)
qed

lemma state_counts_keys: "map fst (state_counts rn) = sort (unique (map State rn))"
  by (simp add: state_counts_rows comp_def)

lemma state_counts_count:
  "x \<in> set (state_counts rn) \<Longrightarrow> snd x = count_list (map State rn) (fst x)"
  by (auto simp: state_counts_rows)

lemma state_counts_length: "length (state_counts rn) = card (State ` set rn)"
proof -
  have "length (state_counts rn) = length (sort (unique (map State rn)))"
    by (simp add: state_counts_rows)
  also have "\<dots> = card (set (sort (unique (map State rn))))"
    by (rule distinct_card [symmetric]) (simp add: distinct_unique)
  finally show ?thesis by (simp add: set_unique)
qed

lemma stable_descending_ok: "sort_values_desc stable_descending"
proof -
  have "sorted_wrt (\<lambda>a b. snd b \<le> snd a) (stable_descending df)" for df
  proof -
    have "sorted (map snd (sort_key snd (rev df)))" by (rule sorted_sort_key)
    then have "sorted_wrt (\<lambda>a b. snd a \<le> snd b) (sort_key snd (rev df))"
      by (simp add: sorted_map)
    then show ?thesis by (simp add: stable_descending_def sorted_wrt_rev)
  qed
  then show ?thesis by (simp add: sort_values_desc_def stable_descending_def)
qed

lemma reversed_ascending_ok: "sort_values_desc reversed_ascending"
proof -
  have "sorted_wrt (\<lambda>a b. snd b \<le> snd a) (reversed_ascending df)" for df
  proof -
    have "sorted (map snd (sort_key snd df))" by (rule sorted_sort_key)
    then have "sorted_wrt (\<lambda>a b. snd a \<le> snd b) (sort_key snd df)"
      by (simp add: sorted_map)
    then show ?thesis by (simp add: reversed_ascending_def sorted_wrt_rev)
  qed
  then show ?thesis by (simp add: sort_values_desc_def reversed_ascending_def)
qed

lemma sorted_wrt_ties:
  assumes "\<And>k. sorted_wrt R (filter (\<lambda>z. f z = k) xs)"
  shows "sorted_wrt (\<lambda>x y. f x = f y \<longrightarrow> R x y) xs"
  using assms
proof (induction xs)
  case Nil
  then show ?case by simp
next
  case (Cons x xs)
  have tail: "sorted_wrt R (filter (\<lambda>z. f z = k) xs)" for k
    using Cons.prems [of k] by (cases "f x = k") auto
  have "R x y" if "y \<in> set xs" "f x = f y" for y
    using Cons.prems [of "f x"] that by auto
  with Cons.IH [OF tail] show ?case by simp
qed

lemma stable_descending_ties:
  assumes "sorted_wrt (\<lambda>x y. fst x < fst y) df"
  shows "sorted_wrt (\<lambda>x y. snd x = snd y \<longrightarrow> fst x < fst y) (stable_descending df)"
proof -
  have "sorted_wrt (\<lambda>x y. fst y < fst x) (rev df)"
    using assms by (simp add: sorted_wrt_rev)
  then have "sorted_wrt (\<lambda>x y. fst y < fst x) (filter (\<lambda>z. snd z = k) (rev df))" for k
    by (rule sorted_wrt_filter)
  then have "sorted_wrt (\<lambda>x y. fst y < fst x)
      (filter (\<lambda>z. snd z = k) (sort_key snd (rev df)))" for k
    by (simp add: sort_key_stable)
  then have "sorted_wrt (\<lambda>x y. snd x = snd y \<longrightarrow> fst y < fst x) (sort_key snd (rev df))"
    by (rule sorted_wrt_ties)
  then have "sorted_wrt (\<lambda>x y. snd y = snd x \<longrightarrow> fst y < fst x) (sort_key snd (rev df))"
    by (rule sorted_wrt_mono_rel [rotated]) simp
  then show ?thesis by (simp add: stable_descending_def sorted_wrt_rev)
qed

text \<open>
  With the sort that keeps ties in place, states of equal count are listed in
  ascending order of name, the order of the grouping.
\<close>

lemma stable_ties_by_name:
  "sorted_wrt (\<lambda>a b. count_list (map State rn) a = count_list (map State rn) b \<longrightarrow> a < b)
     (top_10_states stable_descending rn)"
proof -
  let ?df = "state_counts rn"
  let ?S = "stable_descending ?df"
  let ?cnt = "count_list (map State rn)"
  have "sorted_wrt (<) (map fst ?df)"
    by (simp add: state_counts_keys distinct_unique strict_sorted_iff)
  then have "sorted_wrt (\<lambda>x y. fst x < fst y) ?df"
    by (simp add: sorted_wrt_map)
  then have t: "sorted_wrt (\<lambda>x y. snd x = snd y \<longrightarrow> fst x < fst y) ?S"
    by (rule stable_descending_ties)
  have "set ?S = set ?df"
    using stable_descending_ok by (intro mset_eq_setD) (simp add: sort_values_desc_def)
  then have cnt: "snd x = ?cnt (fst x)" if "x \<in> set ?S" for x
    using that state_counts_count by blast
  have "sorted_wrt (\<lambda>x y. ?cnt (fst x) = ?cnt (fst y) \<longrightarrow> fst x < fst y) ?S"
    using t by (rule sorted_wrt_mono_rel [rotated]) (simp add: cnt)
  then have "sorted_wrt (\<lambda>x y. ?cnt (fst x) = ?cnt (fst y) \<longrightarrow> fst x < fst y) (take 10 ?S)"
    by (rule sorted_wrt_take)
  then show ?thesis by (simp add: top_10_states_def sorted_wrt_map)
qed

lemma scenario_app_constructed:
  "create_renewable_dashboard stable_descending scenario = Inr scenario_app"
  by code_simp

section \<open>The claims\<close>

subsection \<open>Renewable Filter\<close>

text \<open>
  Claim C1. Every row that the Renewable Filter retains is a row of the input, and
  its \<open>Source\<close> value, where it has one, does not case-insensitively contain
  ``Consumption'', ``Verification'' or ``Sold''.
\<close>

theorem renewable_excludes_keywords:
  assumes "renewable dataset = Inr rn"
  shows "\<forall>r\<in>set rn.
           r \<in> set dataset \<and>
           (\<forall>s. Source r = Some s \<longrightarrow>
              \<not> ci_contains ''Consumption'' s \<and> \<not> ci_contains ''Verification'' s \<and>
              \<not> ci_contains ''Sold'' s)"
proof
  fix r
  assume r: "r \<in> set rn"
  from assms have rn: "rn = filter (\<lambda>r. case Source r of
                              None \<Rightarrow> True
                            | Some s \<Rightarrow>
                                \<not> re_search [''Consumption'', ''Verification'', ''Sold''] s)
                  dataset"
    by (auto simp: renewable_filter split: if_splits)
  have "\<not> ci_contains kw s"
    if "Source r = Some s" "kw \<in> set [''Consumption'', ''Verification'', ''Sold'']" for s kw
  proof
    assume "ci_contains kw s"
    with that(2) have "re_search [''Consumption'', ''Verification'', ''Sold''] s"
      by (rule re_search_contains)
    with r that(1) show False unfolding rn by simp
  qed
  moreover have "r \<in> set dataset" using r unfolding rn by simp
  ultimately show "r \<in> set dataset \<and>
           (\<forall>s. Source r = Some s \<longrightarrow>
              \<not> ci_contains ''Consumption'' s \<and> \<not> ci_contains ''Verification'' s \<and>
              \<not> ci_contains ''Sold'' s)"
    by simp
qed

theorem renewable_excludes_keywords_witness:
  "renewable scenario = Inr [solar_ca_2020] \<and>
   \<not> ci_contains ''Consumption'' ''Solar Grant'' \<and>
   \<not> ci_contains ''Verification'' ''Solar Grant'' \<and>
   \<not> ci_contains ''Sold'' ''Solar Grant''"
proof -
  have kept: "renewable scenario = Inr [solar_ca_2020]"
    by code_simp
  have src: "Source solar_ca_2020 = Some ''Solar Grant''"
    by (simp add: solar_ca_2020_def)
  from renewable_excludes_keywords [OF kept] src kept show ?thesis
    by simp
qed




subsection \<open>Facet Index Builder\<close>

text \<open>
  Claim C3, without its rule for ties. For every sort that returns the rows of the
  state counts in descending order of count, the default-states list has length
  \<open>min 10 (number of distinct states)\<close>, has no duplicates, holds states of the working
  dataset only, is in descending order of count, and every state in it has at least
  the count of every state left out. Which of several states of equal count comes
  first depends on the sort; \<open>stable_ties_by_name\<close> gives the order for the sort that
  keeps ties in place.
\<close>

theorem top_10_states_highest_counts:
  assumes "sort_values_desc srt"
  shows "length (top_10_states srt rn) = min 10 (card (State ` set rn)) \<and>
         distinct (top_10_states srt rn) \<and>
         set (top_10_states srt rn) \<subseteq> State ` set rn \<and>
         sorted_wrt (\<lambda>a b. count_list (map State rn) b \<le> count_list (map State rn) a)
           (top_10_states srt rn) \<and>
         (\<forall>a\<in>set (top_10_states srt rn). \<forall>b\<in>State ` set rn - set (top_10_states srt rn).
            count_list (map State rn) b \<le> count_list (map State rn) a)"
proof -
  let ?df = "state_counts rn"
  let ?S = "srt ?df"
  let ?cnt = "count_list (map State rn)"
  from assms have m: "mset ?S = mset ?df" and s: "sorted_wrt (\<lambda>a b. snd b \<le> snd a) ?S"
    by (simp_all add: sort_values_desc_def)
  from m have set_eq: "set ?S = set ?df" by (rule mset_eq_setD)
  from m have len_eq: "length ?S = length ?df" by (rule mset_eq_length)
  have cnt: "snd x = ?cnt (fst x)" if "x \<in> set ?S" for x
    using that set_eq state_counts_count by blast
  have "mset (map fst ?S) = mset (map fst ?df)" using m by simp
  moreover have "distinct (map fst ?df)"
    by (simp add: state_counts_keys distinct_unique)
  ultimately have d: "distinct (map fst ?S)"
    using mset_eq_imp_distinct_iff by blast
  have keys: "fst ` set ?S = State ` set rn"
  proof -
    have "fst ` set ?S = set (map fst ?df)" using set_eq by simp
    then show ?thesis by (simp add: state_counts_keys set_unique)
  qed
  have top: "top_10_states srt rn = take 10 (map fst ?S)"
    by (simp add: top_10_states_def take_map)
  have c1: "length (top_10_states srt rn) = min 10 (card (State ` set rn))"
    by (simp add: top_10_states_def len_eq state_counts_length min.commute)
  have c2: "distinct (top_10_states srt rn)"
    unfolding top using d by (rule distinct_take)
  have c3: "set (top_10_states srt rn) \<subseteq> State ` set rn"
  proof -
    have "set (take 10 (map fst ?S)) \<subseteq> set (map fst ?S)" by (rule set_take_subset)
    then show ?thesis using keys by (simp add: top)
  qed
  have s': "sorted_wrt (\<lambda>a b. ?cnt (fst b) \<le> ?cnt (fst a)) ?S"
    using s by (rule sorted_wrt_mono_rel [rotated]) (simp add: cnt)
  have c4: "sorted_wrt (\<lambda>a b. ?cnt b \<le> ?cnt a) (top_10_states srt rn)"
  proof -
    have "sorted_wrt (\<lambda>a b. ?cnt (fst b) \<le> ?cnt (fst a)) (take 10 ?S)"
      using s' by (rule sorted_wrt_take)
    then show ?thesis by (simp add: top_10_states_def sorted_wrt_map)
  qed
  have c5: "?cnt b \<le> ?cnt a"
    if a: "a \<in> set (top_10_states srt rn)"
      and b: "b \<in> State ` set rn - set (top_10_states srt rn)" for a b
  proof -
    from a obtain x where x: "x \<in> set (take 10 ?S)" "a = fst x"
      by (auto simp: top_10_states_def)
    from b have "b \<in> fst ` set ?S" using keys by simp
    then obtain y where y: "y \<in> set ?S" "b = fst y" by blast
    have "y \<notin> set (take 10 ?S)"
      using b y by (auto simp: top_10_states_def)
    moreover have "set ?S = set (take 10 ?S) \<union> set (drop 10 ?S)"
      by (metis append_take_drop_id set_append)
    ultimately have yd: "y \<in> set (drop 10 ?S)" using y by auto
    have "sorted_wrt (\<lambda>a b. ?cnt (fst b) \<le> ?cnt (fst a)) (take 10 ?S @ drop 10 ?S)"
      using s' by simp
    then have "?cnt (fst y) \<le> ?cnt (fst x)"
      using x yd unfolding sorted_wrt_append by blast
    then show ?thesis using x y by simp
  qed
  from c1 c2 c3 c4 c5 show ?thesis by blast
qed

theorem top_10_states_highest_counts_witness:
  "sort_values_desc stable_descending \<and>
   length (top_10_states stable_descending twelve_states) = 10 \<and>
   distinct (top_10_states stable_descending twelve_states) \<and>
   ''TX'' \<in> set (top_10_states stable_descending twelve_states)"
proof -
  have n: "card (State ` set twelve_states) = 12"
    by code_simp
  have tx: "''TX'' \<in> set (top_10_states stable_descending twelve_states)"
    by code_simp
  from top_10_states_highest_counts [OF stable_descending_ok, of twelve_states] n tx
  show ?thesis using stable_descending_ok by simp
qed

text \<open>
  Claim C3 as stated fails on its last part. The grouping lists the states in
  ascending order of name, not in the order the data first shows them: on three rows
  with the states CA, AZ, TX, each once, a sort that keeps ties in place returns
  AZ, CA, TX, which is not the order of first encounter in the data. And the library's
  default sort kind keeps no order between ties: the sort that returns TX, CA, AZ is
  a descending sort by count as well, and follows neither order.
\<close>

theorem tie_order_counterexample:
  "top_10_states stable_descending three_states = [''AZ'', ''CA'', ''TX''] \<and>
   unique (map State three_states) = [''CA'', ''AZ'', ''TX''] \<and>
   \<not> ties_in_order_of (unique (map State three_states))
        (count_list (map State three_states))
        (top_10_states stable_descending three_states) \<and>
   sort_values_desc reversed_ascending \<and>
   top_10_states reversed_ascending three_states = [''TX'', ''CA'', ''AZ''] \<and>
   \<not> ties_in_order_of (map fst (state_counts three_states))
        (count_list (map State three_states))
        (top_10_states reversed_ascending three_states)"
proof -
  have "top_10_states stable_descending three_states = [''AZ'', ''CA'', ''TX'']"
    by code_simp
  moreover have "unique (map State three_states) = [''CA'', ''AZ'', ''TX'']"
    by code_simp
  moreover have "\<not> ties_in_order_of (unique (map State three_states))
        (count_list (map State three_states))
        (top_10_states stable_descending three_states)"
    by code_simp
  moreover have "top_10_states reversed_ascending three_states = [''TX'', ''CA'', ''AZ'']"
    by code_simp
  moreover have "\<not> ties_in_order_of (map fst (state_counts three_states))
        (count_list (map State three_states))
        (top_10_states reversed_ascending three_states)"
    by code_simp
  ultimately show ?thesis using reversed_ascending_ok by simp
qed

text \<open>
  Claim C9. The claim is that the builder produces the three sorted lists from the
  working dataset. The working dataset may hold a row without a \<open>Source\<close> (claim C6).
  On the two rows below, one without a \<open>Source\<close> and one with, both are retained, and
  sorting the distinct \<open>Source\<close> values raises \<open>TypeError\<close>: no list is produced and the
  constructor fails.
\<close>

theorem sources_type_error:
  "renewable [unlabelled_tx_2021, solar_ca_2020] = Inr [unlabelled_tx_2021, solar_ca_2020] \<and>
   sources [unlabelled_tx_2021, solar_ca_2020] = Inl TypeError \<and>
   create_renewable_dashboard stable_descending [unlabelled_tx_2021, solar_ca_2020] =
     Inl TypeError"
  by code_simp

text \<open>
  Claim C10. The constructor fails with the \<open>ValueError\<close> of \<open>min\<close> on an empty list
  exactly when the working dataset is empty, whatever the sort.
\<close>

theorem empty_working_dataset_fails:
  "create_renewable_dashboard srt dataset = Inl ValueError \<longleftrightarrow> renewable dataset = Inr []"
proof
  assume "renewable dataset = Inr []"
  then show "create_renewable_dashboard srt dataset = Inl ValueError"
    by (simp add: create_renewable_dashboard_def sources_empty years_def py_min_def)
next
  assume f: "create_renewable_dashboard srt dataset = Inl ValueError"
  show "renewable dataset = Inr []"
  proof (cases "renewable dataset")
    case (Inl e)
    then have "e = AttributeError" by (auto simp: renewable_filter split: if_splits)
    with Inl f show ?thesis by (simp add: create_renewable_dashboard_def)
  next
    case rn: (Inr rn)
    show ?thesis
    proof (cases "sources rn")
      case (Inl e)
      then have "e = TypeError" by (rule sources_error)
      with Inl rn f show ?thesis by (simp add: create_renewable_dashboard_def Let_def)
    next
      case (Inr srcs)
      with rn f have "years rn = []"
        by (auto simp: create_renewable_dashboard_def Let_def py_min_error py_max_error
            split: sum.splits)
      with rn show ?thesis by (simp add: years_Nil_iff)
    qed
  qed
qed

theorem empty_working_dataset_fails_witness:
  "renewable [wind_report_ca_2020] = Inr [] \<and>
   create_renewable_dashboard stable_descending [wind_report_ca_2020] = Inl ValueError \<and>
   create_renewable_dashboard stable_descending [] = Inl ValueError"
proof -
  have e1: "renewable [wind_report_ca_2020] = Inr []"
    by code_simp
  have e2: "renewable [] = Inr []"
    by code_simp
  from empty_working_dataset_fails [of stable_descending "[wind_report_ca_2020]"]
    empty_working_dataset_fails [of stable_descending "[]"] e1 e2
  show ?thesis by simp
qed

subsection \<open>Query Engine\<close>



text \<open>
  Claim C2. The claim is that the counts of each table add up to the number of rows
  of the working dataset that satisfy the row inclusion predicate. On the dataset
  below the constructor returns an application whose working dataset is one row
  without a \<open>Source\<close> and whose initial selection of sources is the missing value. With
  that selection the row satisfies the predicate and is in the filtered frame, and
  both tables are empty: the counts add up to 0, not to 1.
\<close>

theorem table_counts_missing_source:
  "create_renewable_dashboard stable_descending unlabelled_kept =
     Inr \<lparr>layout =
            \<lparr>slider_min = 2021, slider_max = 2021, slider_value = [2021, 2021],
             slider_marks = [2021], state_options = [''TX''], state_value = [''TX''],
             source_options = [None], source_value = [None]\<rparr>,
          working = [unlabelled_tx_2021]\<rparr> \<and>
   row_included 2021 2021 (set [''TX'']) (set [None]) unlabelled_tx_2021 \<and>
   filtered_data [unlabelled_tx_2021] 2021 2021 [''TX''] [None] = [unlabelled_tx_2021] \<and>
   update_graphs [unlabelled_tx_2021] [2021, 2021] [''TX''] [None] = Inr ([], []) \<and>
   sum_of_counts ([] :: table_a) = 0"
  by code_simp

text \<open>
  Claim C5. When no state is selected or no source is selected, the callback
  returns two empty tables, whatever the year range and the other selection, and
  raises no error.
\<close>

theorem empty_selection_empty_tables:
  assumes "sts = [] \<or> srcs = []"
  shows "update_graphs rn [yearMin, yearMax] sts srcs = Inr ([], [])"
  using assms by (intro update_graphs_nothing_included) (auto simp: row_included_def)

theorem empty_selection_empty_tables_witness:
  "update_graphs three_states [2019, 2021] [''CA'', ''AZ'', ''TX''] [] = Inr ([], []) \<and>
   update_graphs three_states [2019, 2021] [] [Some ''Solar Grant'', Some ''Wind Farm''] =
     Inr ([], [])"
  using
    empty_selection_empty_tables [of "[''CA'', ''AZ'', ''TX'']" "[]" three_states 2019 2021]
    empty_selection_empty_tables [of "[]" "[Some ''Solar Grant'', Some ''Wind Farm'']"
      three_states 2019 2021]
  by simp

text \<open>
  Claim C8. When the lower end of the year range is above its upper end, the
  callback returns two empty tables and raises no error.
\<close>

theorem inverted_range_empty_tables:
  assumes "yearMax < yearMin"
  shows "update_graphs rn [yearMin, yearMax] sts srcs = Inr ([], [])"
  using assms by (intro update_graphs_nothing_included) (auto simp: row_included_def)

theorem inverted_range_empty_tables_witness:
  "(2019 :: int) < 2021 \<and>
   update_graphs three_states [2021, 2019] [''CA'', ''AZ'', ''TX'']
     [Some ''Solar Grant'', Some ''Wind Farm''] = Inr ([], [])"
proof -
  have lt: "(2019 :: int) < 2021" by simp
  from inverted_range_empty_tables [OF lt, of three_states "[''CA'', ''AZ'', ''TX'']"
      "[Some ''Solar Grant'', Some ''Wind Farm'']"] lt
  show ?thesis by simp
qed

text \<open>
  Claim C7. Firing the callback leaves the application, and with it the working
  dataset, as it was; firing it again with the same selection returns the same two
  tables (or the same error).
\<close>

theorem callback_repeatable:
  "snd (fire_callback a years_range sts srcs) = a \<and>
   working (snd (fire_callback a years_range sts srcs)) = working a \<and>
   fst (fire_callback (snd (fire_callback a years_range sts srcs)) years_range sts srcs) =
     fst (fire_callback a years_range sts srcs)"
  by (simp add: fire_callback_def)

theorem callback_repeatable_witness:
  "fst (fire_callback
          (snd (fire_callback scenario_app [2020, 2020] [''CA''] [Some ''Solar Grant'']))
          [2020, 2020] [''CA''] [Some ''Solar Grant'']) =
     Inr ([(''CA'', ''Solar Grant'', 1)], [(2020, ''Solar Grant'', 1)])"
proof -
  have "fst (fire_callback scenario_app [2020, 2020] [''CA''] [Some ''Solar Grant'']) =
          Inr ([(''CA'', ''Solar Grant'', 1)], [(2020, ''Solar Grant'', 1)])"
    by code_simp
  with callback_repeatable [of scenario_app "[2020, 2020]" "[''CA'']" "[Some ''Solar Grant'']"]
  show ?thesis by simp
qed

end
